theory Spec2Isabelle
  imports Complex_Main
begin

section \<open>Numbers of the host language\<close>

text \<open>
  A JavaScript number is an IEEE-754 double. A finite double is a rational number, so a
  number is modelled by its exact value in \<^typ>\<open>rat\<close>: comparison of doubles is
  comparison of their values, and an arithmetic operation is the exact operation followed
  by rounding to the nearest double, ties to the even mantissa (\<open>to_double\<close>).
  NaN and the infinities are outside the model; the values of this program are
  probabilities and percentages, far from overflow.
\<close>

definition pow2 :: "int \<Rightarrow> rat" where
  "pow2 e = (if 0 \<le> e then 2 ^ nat e else 1 / 2 ^ nat (- e))"

function bit_length :: "int \<Rightarrow> int" where
  "bit_length n = (if n \<le> 0 then 0 else 1 + bit_length (n div 2))"
  by pat_completeness auto
termination
  by (relation "measure nat") auto

declare bit_length.simps [simp del]

text \<open>\<open>ilog2 x\<close> is the binary exponent of a positive \<open>x\<close>: \<open>2 ^ e \<le> x < 2 ^ (e + 1)\<close>.\<close>

definition ilog2 :: "rat \<Rightarrow> int" where
  "ilog2 x = (let (a, b) = quotient_of x; d = bit_length a - bit_length b
              in if pow2 d \<le> x then d else d - 1)"

definition round_half_even :: "rat \<Rightarrow> int" where
  "round_half_even q = (let f = \<lfloor>q\<rfloor>; r = q - of_int f
     in if r < 1 / 2 then f else if 1 / 2 < r then f + 1 else if even f then f else f + 1)"

text \<open>
  Rounding to binary64: 53 bits of mantissa, the unit in the last place is
  \<open>2 ^ (e - 52)\<close>, and below the smallest normal exponent \<open>- 1022\<close> the spacing stays
  \<open>2 ^ - 1074\<close>.
\<close>

definition to_double :: "rat \<Rightarrow> rat" where
  "to_double x = (if x = 0 then 0 else
     let a = \<bar>x\<bar>; e = max (ilog2 a) (- 1022); u = pow2 (e - 52)
     in sgn x * of_int (round_half_even (a / u)) * u)"

text \<open>The operator \<^verbatim>\<open>*\<close> on numbers.\<close>

definition fmul :: "rat \<Rightarrow> rat \<Rightarrow> rat" where
  "fmul a b = to_double (a * b)"

function digits :: "int \<Rightarrow> string" where
  "digits n = (if n < 10 then [''0123456789'' ! nat n]
               else digits (n div 10) @ [''0123456789'' ! nat (n mod 10)])"
  by pat_completeness auto
termination
  by (relation "measure nat") auto

declare digits.simps [simp del]

text \<open>
  \<^verbatim>\<open>Number.prototype.toFixed(2)\<close> for a finite number below \<open>10 ^ 21\<close>: the integer
  \<open>n\<close> with \<open>n / 100\<close> nearest to the value (the larger one on a tie), written in decimal
  with at least three digits and a point before the last two; a negative value carries
  its sign.
\<close>

definition toFixed2 :: "rat \<Rightarrow> string" where
  "toFixed2 x0 = (let x = \<bar>x0\<bar>; n = \<lfloor>x * 100 + 1 / 2\<rfloor>; m = digits n;
       m' = (if length m \<le> 2 then replicate (3 - length m) (CHR ''0'') @ m else m);
       k = length m'
     in (if x0 < 0 then ''-'' else '''') @ take (k - 2) m' @ ''.'' @ drop (k - 2) m')"

section \<open>Texts shown to the user\<close>

text \<open>
  Strings are byte lists; the three characters of the source outside ASCII are written
  as their UTF-8 bytes (the apostrophe U+2019, the warning sign U+26A0 and the
  variation selector U+FE0F).
\<close>

definition preparing_message :: string where
  "preparing_message = ''Sit back, we'' @ [CHR 0xE2, CHR 0x80, CHR 0x99] @
     ''re preparing the best experience for you!''"

definition get_ready_message :: string where
  "get_ready_message = ''Get ready for the best experience!''"

definition all_set_message :: string where
  "all_set_message = ''All set! The AI model is loaded and ready to go.''"

definition model_failed_message :: string where
  "model_failed_message = ''Could not load the model. Try again.''"

definition webcam_failed_message :: string where
  "webcam_failed_message = ''Cannot access webcam. Check permissions.''"

definition started_message :: string where
  "started_message = ''Recognition started! Looking for objects...''"

definition stopped_message :: string where
  "stopped_message = ''Recognition stopped.''"

definition flipped_message :: string where
  "flipped_message = ''Camera flipped!''"

definition limited_dataset_message :: string where
  "limited_dataset_message = [CHR 0xE2, CHR 0x9A, CHR 0xA0, CHR 0xEF, CHR 0xB8, CHR 0x8F] @
     '' Limited dataset: This AI app is still learning and may not give accurate results for this object.''"

definition tfjs_url :: string where
  "tfjs_url = ''https://cdn.jsdelivr.net/npm/@tensorflow/tfjs@latest''"

definition mobilenet_url :: string where
  "mobilenet_url = ''https://cdn.jsdelivr.net/npm/@tensorflow-models/mobilenet@1.0.0''"

definition script_error_message :: "string \<Rightarrow> string" where
  "script_error_message src = ''Error loading script: '' @ src"

section \<open>The component's state\<close>

text \<open>The value of \<^verbatim>\<open>recognitionResult\<close>; \<open>None\<close> is \<^verbatim>\<open>null\<close>.\<close>

record result =
  name :: "string option"
  confidence :: "string option"

text \<open>One element of the array that \<^verbatim>\<open>model.classify\<close> resolves to.\<close>

record prediction =
  className :: string
  probability :: rat

datatype js_error = TypeError | Rejected

text \<open>
  \<^verbatim>\<open>recognizeImage\<close> is a closure of the render that created it: it reads the
  \<^verbatim>\<open>model\<close> and \<^verbatim>\<open>isRecognizing\<close> of that render, not the current ones.
\<close>

record tick_closure =
  seen_model :: "nat option"
  seen_isRecognizing :: bool

datatype script_status = NotRequested | Requested | Loaded | Errored

text \<open>
  The state hooks of \<^verbatim>\<open>App\<close>, its two refs, and what the browser holds for it:
  the clock and the pending \<^verbatim>\<open>setTimeout\<close> callbacks (all of them clear the
  message, so a timer is its due time), the two script elements, the pending
  \<^verbatim>\<open>mobilenet.load()\<close>, the \<^verbatim>\<open>getUserMedia\<close> calls made (number and facing mode)
  and those still pending, the streams whose tracks received \<^verbatim>\<open>stop()\<close> (one entry
  per call), the pending \<^verbatim>\<open>requestAnimationFrame\<close> callbacks, and the
  \<^verbatim>\<open>classify\<close> calls in flight. The stream of the \<open>n\<close>-th \<^verbatim>\<open>getUserMedia\<close> call
  is stream \<open>n\<close>; frame handles are positive, as in the browser.
\<close>

record app =
  model :: "nat option"
  isRecognizing :: bool
  recognitionResult :: result
  isLoading :: bool
  scriptsLoaded :: bool
  message :: string
  isError :: bool
  facingMode :: string
  showSplash :: bool
  srcObject :: "nat option"
  onloadeddata :: "tick_closure option"
  animationFrameRef :: "nat option"
  clock :: int
  timers :: "int list"
  tfjs :: script_status
  mobilenet :: script_status
  window_mobilenet :: bool
  model_loading :: bool
  model_load_calls :: nat
  requests :: "(nat \<times> string) list"
  pending :: "(nat \<times> tick_closure) list"
  stops :: "nat list"
  rafs :: "(nat \<times> tick_closure) list"
  next_raf :: nat
  inflight :: "tick_closure list"
  classify_calls :: nat

definition initial_state :: app where
  "initial_state = \<lparr>
     model = None, isRecognizing = False,
     recognitionResult = \<lparr>name = None, confidence = None\<rparr>,
     isLoading = True, scriptsLoaded = False, message = '''', isError = False,
     facingMode = ''environment'', showSplash = True,
     srcObject = None, onloadeddata = None, animationFrameRef = None,
     clock = 0, timers = [], tfjs = NotRequested, mobilenet = NotRequested,
     window_mobilenet = False, model_loading = False, model_load_calls = 0,
     requests = [], pending = [], stops = [], rafs = [], next_raf = 1,
     inflight = [], classify_calls = 0\<rparr>"

section \<open>The notification helper\<close>

text \<open>
  \<^verbatim>\<open>showMessage\<close> sets the message and the error flag and starts a timer of 3000 ms
  whose callback clears both. It keeps no handle and cancels nothing.
\<close>

definition showMessage :: "string \<Rightarrow> bool \<Rightarrow> app \<Rightarrow> app" where
  "showMessage text error s =
     s\<lparr>message := text, isError := error, timers := timers s @ [clock s + 3000]\<rparr>"

text \<open>
  Time passes by \<open>d\<close> ms: every timer that has come due runs its callback. The clock
  does not go back.
\<close>

definition elapse :: "int \<Rightarrow> app \<Rightarrow> app" where
  "elapse d s =
     (if d < 0 then s else
      let t = clock s + d;
          s1 = (if \<exists>due \<in> set (timers s). due \<le> t
                then s\<lparr>message := '''', isError := False\<rparr> else s)
      in s1\<lparr>clock := t, timers := filter (\<lambda>due. \<not> due \<le> t) (timers s)\<rparr>)"

section \<open>The webcam effect\<close>

definition stop_tracks :: "app \<Rightarrow> app" where
  "stop_tracks s = (case srcObject s of None \<Rightarrow> s
                    | Some sid \<Rightarrow> s\<lparr>stops := stops s @ [sid]\<rparr>)"

definition cancel_frame :: "app \<Rightarrow> app" where
  "cancel_frame s = (case animationFrameRef s of None \<Rightarrow> s
                     | Some h \<Rightarrow> s\<lparr>rafs := filter (\<lambda>(h', c). h' \<noteq> h) (rafs s)\<rparr>)"

text \<open>The else branch of the effect and its cleanup function are the same two statements.\<close>

definition teardown :: "app \<Rightarrow> app" where
  "teardown s = cancel_frame (stop_tracks s)"

definition requestFrame :: "tick_closure \<Rightarrow> app \<Rightarrow> app" where
  "requestFrame c s = s\<lparr>rafs := rafs s @ [(next_raf s, c)],
                         animationFrameRef := Some (next_raf s),
                         next_raf := Suc (next_raf s)\<rparr>"

text \<open>
  \<^verbatim>\<open>startWebcam\<close> up to its \<^verbatim>\<open>await\<close>: the call of \<^verbatim>\<open>getUserMedia\<close> with the
  facing mode of this render. The rest of the function runs when the promise settles
  (\<open>granted\<close>, \<open>denied\<close>).
\<close>

definition startWebcam :: "app \<Rightarrow> app" where
  "startWebcam s =
     (let n = length (requests s)
      in s\<lparr>requests := requests s @ [(n, facingMode s)],
            pending := pending s @
              [(n, \<lparr>seen_model = model s, seen_isRecognizing = isRecognizing s\<rparr>)]\<rparr>)"

definition webcam_effect :: "app \<Rightarrow> app" where
  "webcam_effect s = (if isRecognizing s \<and> model s \<noteq> None then startWebcam s
                      else teardown s)"

section \<open>The bootstrap effects\<close>

definition script_effect :: "app \<Rightarrow> app" where
  "script_effect s = (showMessage preparing_message False s)\<lparr>tfjs := Requested\<rparr>"

definition loadModel :: "app \<Rightarrow> app" where
  "loadModel s =
     (let s1 = showMessage preparing_message False s
      in if window_mobilenet s1
         then s1\<lparr>model_loading := True, model_load_calls := Suc (model_load_calls s1)\<rparr>
         else s1)"

definition model_effect :: "app \<Rightarrow> app" where
  "model_effect s = (if scriptsLoaded s then loadModel s else s)"

text \<open>
  A render after the state changed from \<open>old\<close> to \<open>new\<close>: an effect runs again when
  one of its dependencies changed, the webcam effect after the cleanup of its previous
  run.
\<close>

definition commit :: "app \<Rightarrow> app \<Rightarrow> app" where
  "commit old new =
     (let s1 = (if scriptsLoaded new \<noteq> scriptsLoaded old then model_effect new else new)
      in if (isRecognizing s1, model s1, facingMode s1)
            \<noteq> (isRecognizing old, model old, facingMode old)
         then webcam_effect (teardown s1) else s1)"

text \<open>The first render: the three effects run in the order of their declaration.\<close>

definition init_app :: app where
  "init_app = webcam_effect (model_effect (script_effect initial_state))"

section \<open>The recognition loop\<close>

definition threshold :: rat where
  "threshold = to_double (4 / 5)"

text \<open>
  The body of the \<^verbatim>\<open>try\<close> block after the \<^verbatim>\<open>await\<close>. A rejected promise throws at
  the \<^verbatim>\<open>await\<close>; reading \<^verbatim>\<open>top.probability\<close> of an empty array throws a TypeError.
\<close>

definition classify_result :: "js_error + prediction list \<Rightarrow> js_error + result" where
  "classify_result outcome =
     (case outcome of
        Inl e \<Rightarrow> Inl e
      | Inr [] \<Rightarrow> Inl TypeError
      | Inr (top' # rest) \<Rightarrow>
          if threshold < probability top'
          then Inr \<lparr>name = Some (className top'),
                    confidence = Some (toFixed2 (fmul (probability top') 100))\<rparr>
          else Inr \<lparr>name = None, confidence = Some limited_dataset_message\<rparr>)"

text \<open>
  \<^verbatim>\<open>recognizeImage\<close> up to its \<^verbatim>\<open>await\<close>: the guard, then the call of
  \<^verbatim>\<open>model.classify\<close>. The video element is mounted for the life of the component, so
  \<^verbatim>\<open>videoRef.current\<close> is never null.
\<close>

definition recognizeImage :: "tick_closure \<Rightarrow> app \<Rightarrow> app" where
  "recognizeImage c s =
     (if seen_model c = None \<or> \<not> seen_isRecognizing c then s
      else s\<lparr>inflight := inflight s @ [c], classify_calls := Suc (classify_calls s)\<rparr>)"

text \<open>The rest of \<^verbatim>\<open>recognizeImage\<close>: the catch block is empty, the next frame is requested.\<close>

definition recognizeImage_resume :: "tick_closure \<Rightarrow> js_error + prediction list \<Rightarrow> app \<Rightarrow> app" where
  "recognizeImage_resume c outcome s =
     requestFrame c (case classify_result outcome of
                       Inl e \<Rightarrow> s
                     | Inr r \<Rightarrow> s\<lparr>recognitionResult := r\<rparr>)"

section \<open>Button handlers\<close>

definition startRecognition :: "app \<Rightarrow> app" where
  "startRecognition s = showMessage started_message False (s\<lparr>isRecognizing := True\<rparr>)"

definition stopRecognition :: "app \<Rightarrow> app" where
  "stopRecognition s = showMessage stopped_message False (s\<lparr>isRecognizing := False\<rparr>)"

definition flip_mode :: "string \<Rightarrow> string" where
  "flip_mode prev = (if prev = ''user'' then ''environment'' else ''user'')"

definition flipCamera :: "app \<Rightarrow> app" where
  "flipCamera s = showMessage flipped_message False (s\<lparr>facingMode := flip_mode (facingMode s)\<rparr>)"

section \<open>Events\<close>

text \<open>
  What can happen to the mounted component: a click on one of the three buttons, the
  load or error event of a script element, the settling of \<^verbatim>\<open>mobilenet.load()\<close>, of
  a \<^verbatim>\<open>getUserMedia\<close> call or of a \<^verbatim>\<open>classify\<close> call, the \<^verbatim>\<open>loadeddata\<close> event of
  the video, an animation frame, and the passing of time. An event that the browser
  cannot deliver in the current state (a promise that is not pending, a frame handle
  that is not scheduled) changes nothing.
\<close>

datatype event =
    ClickStart | ClickStop | ClickFlip
  | TfjsLoaded | TfjsFailed | MobilenetLoaded bool | MobilenetFailed
  | ModelResolved nat | ModelRejected
  | Granted nat | Denied nat
  | LoadedData
  | Frame nat
  | Classified "js_error + prediction list"
  | Elapse int

text \<open>The video element shows a stream whose tracks have not been stopped.\<close>

definition holds_stream :: "app \<Rightarrow> bool" where
  "holds_stream s = (case srcObject s of None \<Rightarrow> False | Some sid \<Rightarrow> sid \<notin> set (stops s))"

text \<open>
  The Start button is rendered while \<^verbatim>\<open>isRecognizing\<close> is false and is disabled while
  \<^verbatim>\<open>isLoading\<close>; the Stop button is rendered while \<^verbatim>\<open>isRecognizing\<close> is true; the
  Flip button is always there.
\<close>

definition click_start :: "app \<Rightarrow> app" where
  "click_start s = (if isRecognizing s \<or> isLoading s then s else commit s (startRecognition s))"

definition click_stop :: "app \<Rightarrow> app" where
  "click_stop s = (if isRecognizing s then commit s (stopRecognition s) else s)"

definition click_flip :: "app \<Rightarrow> app" where
  "click_flip s = commit s (flipCamera s)"

definition tfjs_loaded :: "app \<Rightarrow> app" where
  "tfjs_loaded s = (if tfjs s = Requested then s\<lparr>tfjs := Loaded, mobilenet := Requested\<rparr> else s)"

definition tfjs_failed :: "app \<Rightarrow> app" where
  "tfjs_failed s = (if tfjs s = Requested
     then showMessage (script_error_message tfjs_url) True (s\<lparr>tfjs := Errored\<rparr>) else s)"

text \<open>The flag says whether the script defined \<^verbatim>\<open>window.mobilenet\<close>.\<close>

definition mobilenet_loaded :: "bool \<Rightarrow> app \<Rightarrow> app" where
  "mobilenet_loaded defined s = (if mobilenet s = Requested
     then commit s (showMessage get_ready_message False
            (s\<lparr>mobilenet := Loaded, window_mobilenet := defined, scriptsLoaded := True\<rparr>))
     else s)"

definition mobilenet_failed :: "app \<Rightarrow> app" where
  "mobilenet_failed s = (if mobilenet s = Requested
     then showMessage (script_error_message mobilenet_url) True (s\<lparr>mobilenet := Errored\<rparr>) else s)"

definition model_resolved :: "nat \<Rightarrow> app \<Rightarrow> app" where
  "model_resolved m s = (if model_loading s
     then commit s ((showMessage all_set_message False
            (s\<lparr>model_loading := False, model := Some m, isLoading := False\<rparr>))
            \<lparr>showSplash := False\<rparr>)
     else s)"

definition model_rejected :: "app \<Rightarrow> app" where
  "model_rejected s = (if model_loading s
     then commit s ((showMessage model_failed_message True (s\<lparr>model_loading := False\<rparr>))
            \<lparr>isLoading := False, showSplash := False\<rparr>)
     else s)"

text \<open>
  The promise of the \<open>a\<close>-th \<^verbatim>\<open>getUserMedia\<close> call resolves: the stream becomes the
  \<^verbatim>\<open>srcObject\<close> and the \<^verbatim>\<open>onloadeddata\<close> handler of that call is installed.
\<close>

definition granted :: "nat \<Rightarrow> app \<Rightarrow> app" where
  "granted a s = (case map_of (pending s) a of None \<Rightarrow> s
     | Some c \<Rightarrow> s\<lparr>pending := filter (\<lambda>(a', c). a' \<noteq> a) (pending s),
                    srcObject := Some a, onloadeddata := Some c\<rparr>)"

definition denied :: "nat \<Rightarrow> app \<Rightarrow> app" where
  "denied a s = (case map_of (pending s) a of None \<Rightarrow> s
     | Some c \<Rightarrow> commit s ((showMessage webcam_failed_message True
                    (s\<lparr>pending := filter (\<lambda>(a', c). a' \<noteq> a) (pending s)\<rparr>))
                    \<lparr>isRecognizing := False\<rparr>))"

text \<open>The video fires \<^verbatim>\<open>loadeddata\<close> for a live stream.\<close>

definition loaded_data :: "app \<Rightarrow> app" where
  "loaded_data s = (case onloadeddata s of None \<Rightarrow> s
     | Some c \<Rightarrow> if holds_stream s then requestFrame c s else s)"

definition frame :: "nat \<Rightarrow> app \<Rightarrow> app" where
  "frame h s = (case map_of (rafs s) h of None \<Rightarrow> s
     | Some c \<Rightarrow> recognizeImage c (s\<lparr>rafs := filter (\<lambda>(h', c). h' \<noteq> h) (rafs s)\<rparr>))"

text \<open>The oldest \<^verbatim>\<open>classify\<close> call in flight settles.\<close>

definition classified :: "js_error + prediction list \<Rightarrow> app \<Rightarrow> app" where
  "classified outcome s = (case inflight s of [] \<Rightarrow> s
     | c # cs \<Rightarrow> recognizeImage_resume c outcome (s\<lparr>inflight := cs\<rparr>))"

fun step :: "event \<Rightarrow> app \<Rightarrow> app" where
  "step ClickStart s = click_start s"
| "step ClickStop s = click_stop s"
| "step ClickFlip s = click_flip s"
| "step TfjsLoaded s = tfjs_loaded s"
| "step TfjsFailed s = tfjs_failed s"
| "step (MobilenetLoaded d) s = mobilenet_loaded d s"
| "step MobilenetFailed s = mobilenet_failed s"
| "step (ModelResolved m) s = model_resolved m s"
| "step ModelRejected s = model_rejected s"
| "step (Granted a) s = granted a s"
| "step (Denied a) s = denied a s"
| "step LoadedData s = loaded_data s"
| "step (Frame h) s = frame h s"
| "step (Classified outcome) s = classified outcome s"
| "step (Elapse d) s = elapse d s"

fun run :: "event list \<Rightarrow> app \<Rightarrow> app" where
  "run [] s = s"
| "run (e # es) s = run es (step e s)"

text \<open>
  The session state of the specification, read off the component: it is recognizing when
  \<^verbatim>\<open>isRecognizing\<close> is set, the model is there and the video shows a live stream.
\<close>

definition recognizing :: "app \<Rightarrow> bool" where
  "recognizing s = (isRecognizing s \<and> model s \<noteq> None \<and> holds_stream s)"

text \<open>The bootstrap stage: scripts loading, model loading, loading over.\<close>

definition stage :: "app \<Rightarrow> nat" where
  "stage s = (if \<not> isLoading s then 2 else if scriptsLoaded s then 1 else 0)"

text \<open>
  What holds of the bootstrap after every event: \<^verbatim>\<open>scriptsLoaded\<close> is set exactly when
  the second script has loaded, the second script is requested only after the first
  has loaded, and \<^verbatim>\<open>mobilenet.load()\<close> is called, and a model is there, only with
  \<^verbatim>\<open>scriptsLoaded\<close> set; while the load is pending there is no model.
\<close>

definition boot_inv :: "app \<Rightarrow> bool" where
  "boot_inv s = ((scriptsLoaded s \<longleftrightarrow> mobilenet s = Loaded) \<and>
     (mobilenet s \<noteq> NotRequested \<longrightarrow> tfjs s = Loaded) \<and>
     (model_loading s \<longrightarrow> scriptsLoaded s \<and> model s = None) \<and>
     (0 < model_load_calls s \<longrightarrow> scriptsLoaded s) \<and>
     (model s \<noteq> None \<longrightarrow> scriptsLoaded s))"

text \<open>
  A callback passes the guard of \<^verbatim>\<open>recognizeImage\<close> when the render that created it
  had a model and \<^verbatim>\<open>isRecognizing\<close> set. \<open>callbacks_pass\<close> says so of every callback
  the browser holds: with a pending camera request, as the \<^verbatim>\<open>onloadeddata\<close> handler,
  as a scheduled frame, and as a tick waiting for \<^verbatim>\<open>classify\<close>.
\<close>

definition passes_guard :: "tick_closure \<Rightarrow> bool" where
  "passes_guard c = (seen_model c \<noteq> None \<and> seen_isRecognizing c)"

definition callbacks_pass :: "app \<Rightarrow> bool" where
  "callbacks_pass s = (list_all (\<lambda>(a, c). passes_guard c) (pending s) \<and>
     list_all (\<lambda>(h, c). passes_guard c) (rafs s) \<and>
     list_all passes_guard (inflight s) \<and>
     (case onloadeddata s of None \<Rightarrow> True | Some c \<Rightarrow> passes_guard c))"

text \<open>
  Streams are numbered by the camera requests: a stream that is shown or has been stopped
  belongs to a request that was made and is no longer pending.
\<close>

definition granted_before :: "app \<Rightarrow> nat \<Rightarrow> bool" where
  "granted_before s sid = (sid < length (requests s) \<and> sid \<notin> fst ` set (pending s))"

definition streams_inv :: "app \<Rightarrow> bool" where
  "streams_inv s = ((\<forall>a \<in> fst ` set (pending s). a < length (requests s)) \<and>
     (\<forall>sid \<in> set (stops s). granted_before s sid) \<and>
     (\<forall>sid. srcObject s = Some sid \<longrightarrow> granted_before s sid))"

section \<open>Unfolding lemmas\<close>

lemmas handler_defs = startRecognition_def stopRecognition_def flipCamera_def
  recognizeImage_def recognizeImage_resume_def

lemmas event_defs = click_start_def click_stop_def click_flip_def tfjs_loaded_def
  tfjs_failed_def mobilenet_loaded_def mobilenet_failed_def model_resolved_def
  model_rejected_def granted_def denied_def loaded_data_def frame_def classified_def
  elapse_def

text \<open>What each effect leaves alone.\<close>

lemma teardown_keeps:
  "model (teardown s) = model s"
  "isRecognizing (teardown s) = isRecognizing s"
  "recognitionResult (teardown s) = recognitionResult s"
  "isLoading (teardown s) = isLoading s"
  "scriptsLoaded (teardown s) = scriptsLoaded s"
  "message (teardown s) = message s"
  "isError (teardown s) = isError s"
  "facingMode (teardown s) = facingMode s"
  "showSplash (teardown s) = showSplash s"
  "srcObject (teardown s) = srcObject s"
  "onloadeddata (teardown s) = onloadeddata s"
  "animationFrameRef (teardown s) = animationFrameRef s"
  "clock (teardown s) = clock s"
  "timers (teardown s) = timers s"
  "tfjs (teardown s) = tfjs s"
  "mobilenet (teardown s) = mobilenet s"
  "window_mobilenet (teardown s) = window_mobilenet s"
  "model_loading (teardown s) = model_loading s"
  "model_load_calls (teardown s) = model_load_calls s"
  "requests (teardown s) = requests s"
  "pending (teardown s) = pending s"
  "next_raf (teardown s) = next_raf s"
  "inflight (teardown s) = inflight s"
  "classify_calls (teardown s) = classify_calls s"
  by (simp_all add: teardown_def stop_tracks_def cancel_frame_def split: option.splits)

lemma webcam_effect_keeps:
  "model (webcam_effect s) = model s"
  "isRecognizing (webcam_effect s) = isRecognizing s"
  "recognitionResult (webcam_effect s) = recognitionResult s"
  "isLoading (webcam_effect s) = isLoading s"
  "scriptsLoaded (webcam_effect s) = scriptsLoaded s"
  "message (webcam_effect s) = message s"
  "isError (webcam_effect s) = isError s"
  "facingMode (webcam_effect s) = facingMode s"
  "showSplash (webcam_effect s) = showSplash s"
  "srcObject (webcam_effect s) = srcObject s"
  "onloadeddata (webcam_effect s) = onloadeddata s"
  "animationFrameRef (webcam_effect s) = animationFrameRef s"
  "clock (webcam_effect s) = clock s"
  "timers (webcam_effect s) = timers s"
  "tfjs (webcam_effect s) = tfjs s"
  "mobilenet (webcam_effect s) = mobilenet s"
  "window_mobilenet (webcam_effect s) = window_mobilenet s"
  "model_loading (webcam_effect s) = model_loading s"
  "model_load_calls (webcam_effect s) = model_load_calls s"
  "next_raf (webcam_effect s) = next_raf s"
  "inflight (webcam_effect s) = inflight s"
  "classify_calls (webcam_effect s) = classify_calls s"
  by (simp_all add: webcam_effect_def startWebcam_def teardown_keeps Let_def)

lemma model_effect_keeps:
  "model (model_effect s) = model s"
  "isRecognizing (model_effect s) = isRecognizing s"
  "recognitionResult (model_effect s) = recognitionResult s"
  "isLoading (model_effect s) = isLoading s"
  "scriptsLoaded (model_effect s) = scriptsLoaded s"
  "facingMode (model_effect s) = facingMode s"
  "showSplash (model_effect s) = showSplash s"
  "srcObject (model_effect s) = srcObject s"
  "onloadeddata (model_effect s) = onloadeddata s"
  "animationFrameRef (model_effect s) = animationFrameRef s"
  "clock (model_effect s) = clock s"
  "tfjs (model_effect s) = tfjs s"
  "mobilenet (model_effect s) = mobilenet s"
  "window_mobilenet (model_effect s) = window_mobilenet s"
  "requests (model_effect s) = requests s"
  "pending (model_effect s) = pending s"
  "stops (model_effect s) = stops s"
  "rafs (model_effect s) = rafs s"
  "next_raf (model_effect s) = next_raf s"
  "inflight (model_effect s) = inflight s"
  "classify_calls (model_effect s) = classify_calls s"
  by (simp_all add: model_effect_def loadModel_def showMessage_def Let_def)

lemma commit_keeps:
  "model (commit old new) = model new"
  "isRecognizing (commit old new) = isRecognizing new"
  "recognitionResult (commit old new) = recognitionResult new"
  "isLoading (commit old new) = isLoading new"
  "scriptsLoaded (commit old new) = scriptsLoaded new"
  "facingMode (commit old new) = facingMode new"
  "showSplash (commit old new) = showSplash new"
  "srcObject (commit old new) = srcObject new"
  "onloadeddata (commit old new) = onloadeddata new"
  "animationFrameRef (commit old new) = animationFrameRef new"
  "clock (commit old new) = clock new"
  "tfjs (commit old new) = tfjs new"
  "mobilenet (commit old new) = mobilenet new"
  "window_mobilenet (commit old new) = window_mobilenet new"
  "next_raf (commit old new) = next_raf new"
  "inflight (commit old new) = inflight new"
  "classify_calls (commit old new) = classify_calls new"
  by (simp_all add: commit_def Let_def webcam_effect_keeps teardown_keeps model_effect_keeps)


lemma showMessage_keeps:
  "facingMode (showMessage t e s) = facingMode s"
  "model (showMessage t e s) = model s"
  "isLoading (showMessage t e s) = isLoading s"
  "scriptsLoaded (showMessage t e s) = scriptsLoaded s"
  "isRecognizing (showMessage t e s) = isRecognizing s"
  by (simp_all add: showMessage_def)

lemma run_append: "run (es @ es') s = run es' (run es s)"
  by (induction es arbitrary: s) simp_all

section \<open>The facing mode\<close>

lemma facingMode_step:
  "facingMode (step e s) = (if e = ClickFlip then flip_mode (facingMode s) else facingMode s)"
  by (cases e) (simp_all add: commit_keeps showMessage_keeps event_defs handler_defs
      requestFrame_def Let_def split: option.splits list.splits sum.splits)

lemma flip_mode_range: "flip_mode m \<in> {''user'', ''environment''}"
  by (simp add: flip_mode_def)

lemma facingMode_init: "facingMode init_app = ''environment''"
  by (simp add: init_app_def initial_state_def webcam_effect_keeps model_effect_keeps
      script_effect_def showMessage_def)

lemma facingMode_run:
  "facingMode s \<in> {''user'', ''environment''} \<Longrightarrow>
   facingMode (run es s) \<in> {''user'', ''environment''}"
proof (induction es arbitrary: s)
  case Nil
  then show ?case by simp
next
  case (Cons e es)
  have "facingMode (step e s) \<in> {''user'', ''environment''}"
    using Cons.prems flip_mode_range [of "facingMode s"] by (simp add: facingMode_step)
  then show ?case using Cons.IH by simp
qed

lemma flip_mode_twice: "m \<in> {''user'', ''environment''} \<Longrightarrow> flip_mode (flip_mode m) = m"
  by (auto simp: flip_mode_def)

text \<open>
  C10. After any sequence of events from the first render the facing mode is
  \<^verbatim>\<open>"user"\<close> or \<^verbatim>\<open>"environment"\<close>; two clicks on Flip restore it; and any number of
  clicks on Flip leaves it one of the two values.
\<close>

theorem flip_involution:
  "facingMode (run es init_app) \<in> {''user'', ''environment''} \<and>
   facingMode (run [ClickFlip, ClickFlip] (run es init_app)) = facingMode (run es init_app) \<and>
   facingMode (run (replicate n ClickFlip) (run es init_app)) \<in> {''user'', ''environment''}"
proof -
  have r: "facingMode (run es init_app) \<in> {''user'', ''environment''}"
    by (rule facingMode_run) (simp add: facingMode_init)
  have "facingMode (run [ClickFlip, ClickFlip] (run es init_app)) = facingMode (run es init_app)"
    using flip_mode_twice [OF r] by (simp add: facingMode_step del: step.simps)
  moreover have "facingMode (run (replicate n ClickFlip) (run es init_app))
      \<in> {''user'', ''environment''}"
    by (rule facingMode_run) (rule r)
  ultimately show ?thesis using r by blast
qed

theorem flip_involution_witness:
  "facingMode (run [ClickFlip, ClickFlip] (run [ClickFlip] init_app)) = ''user'' \<and>
   facingMode (run [ClickFlip] init_app) = ''user''"
proof -
  have "facingMode (run [ClickFlip] init_app) = ''user''" by code_simp
  then show ?thesis using flip_involution [of "[ClickFlip]" 0] by simp
qed

section \<open>The bootstrap\<close>

lemma model_effect_loading:
  "model_loading (model_effect s) = (scriptsLoaded s \<and> window_mobilenet s \<or> model_loading s)"
  "model_load_calls (model_effect s) =
     (if scriptsLoaded s \<and> window_mobilenet s then Suc (model_load_calls s) else model_load_calls s)"
  by (auto simp add: model_effect_def loadModel_def showMessage_def Let_def)

lemma commit_loading:
  "model_loading (commit old new) =
     (scriptsLoaded new \<noteq> scriptsLoaded old \<and> scriptsLoaded new \<and> window_mobilenet new
       \<or> model_loading new)"
  "model_load_calls (commit old new) =
     (if scriptsLoaded new \<noteq> scriptsLoaded old \<and> scriptsLoaded new \<and> window_mobilenet new
      then Suc (model_load_calls new) else model_load_calls new)"
  by (auto simp add: commit_def Let_def webcam_effect_keeps teardown_keeps model_effect_loading)

lemma boot_inv_init: "boot_inv init_app"
  by (simp add: boot_inv_def init_app_def initial_state_def webcam_effect_keeps model_effect_keeps
      model_effect_loading script_effect_def showMessage_def)

lemma boot_inv_step: "boot_inv s \<Longrightarrow> boot_inv (step e s)"
  by (cases e) (auto simp add: boot_inv_def commit_keeps commit_loading showMessage_def event_defs
      handler_defs requestFrame_def Let_def split: option.splits list.splits sum.splits)


lemma boot_inv_run: "boot_inv s \<Longrightarrow> boot_inv (run es s)"
  by (induction es arbitrary: s) (simp_all add: boot_inv_step)

lemma loading_step:
  "isLoading (step e s) \<Longrightarrow> isLoading s"
  "scriptsLoaded s \<Longrightarrow> scriptsLoaded (step e s)"
  by (cases e; simp add: commit_keeps showMessage_def event_defs handler_defs requestFrame_def
      Let_def split: option.splits list.splits sum.splits if_splits)+

lemma stage_step: "stage s \<le> stage (step e s)"
  using loading_step [where e = e and s = s] by (auto simp add: stage_def)

lemma stage_run: "stage s \<le> stage (run es s)"
proof (induction es arbitrary: s)
  case Nil
  show ?case by simp
next
  case (Cons e es)
  have "stage s \<le> stage (step e s)" by (rule stage_step)
  also have "\<dots> \<le> stage (run es (step e s))" by (rule Cons.IH)
  finally show ?case by simp
qed

lemma ready_step:
  assumes "boot_inv s" and "model s = Some m" and "\<not> isLoading s"
  shows "model (step e s) = Some m \<and> \<not> isLoading (step e s)"
  using assms
  by (cases e) (auto simp add: boot_inv_def commit_keeps showMessage_def event_defs handler_defs
      requestFrame_def Let_def split: option.splits list.splits sum.splits)

lemma ready_run:
  assumes "boot_inv s" and "model s = Some m" and "\<not> isLoading s"
  shows "model (run es s) = Some m \<and> \<not> isLoading (run es s)"
  using assms
proof (induction es arbitrary: s)
  case Nil
  then show ?case by simp
next
  case (Cons e es)
  have "boot_inv (step e s)" using Cons.prems(1) by (rule boot_inv_step)
  moreover have "model (step e s) = Some m \<and> \<not> isLoading (step e s)"
    using Cons.prems by (rule ready_step)
  ultimately show ?case using Cons.IH by simp
qed

text \<open>
  C9. After any sequence of events from the first render: \<^verbatim>\<open>mobilenet.load()\<close> has
  been called only if both scripts have loaded, and the second script was requested only
  after the first had loaded; the stage never decreases under further events; and once
  the model is set and loading has ended, the model stays the same and loading stays
  ended.
\<close>

theorem bootstrap_sequence:
  "(0 < model_load_calls (run es init_app) \<longrightarrow>
      tfjs (run es init_app) = Loaded \<and> mobilenet (run es init_app) = Loaded) \<and>
   (mobilenet (run es init_app) \<noteq> NotRequested \<longrightarrow> tfjs (run es init_app) = Loaded) \<and>
   stage (run es init_app) \<le> stage (run es' (run es init_app)) \<and>
   (model (run es init_app) \<noteq> None \<and> \<not> isLoading (run es init_app) \<longrightarrow>
      model (run es' (run es init_app)) = model (run es init_app) \<and>
      \<not> isLoading (run es' (run es init_app)) \<and>
      stage (run es' (run es init_app)) = 2)"
proof -
  have inv: "boot_inv (run es init_app)"
    by (rule boot_inv_run) (rule boot_inv_init)
  have order: "0 < model_load_calls (run es init_app) \<longrightarrow>
      tfjs (run es init_app) = Loaded \<and> mobilenet (run es init_app) = Loaded"
    using inv unfolding boot_inv_def by auto
  have second: "mobilenet (run es init_app) \<noteq> NotRequested \<longrightarrow> tfjs (run es init_app) = Loaded"
    using inv unfolding boot_inv_def by blast
  have mono: "stage (run es init_app) \<le> stage (run es' (run es init_app))"
    by (rule stage_run)
  have ready: "model (run es init_app) \<noteq> None \<and> \<not> isLoading (run es init_app) \<longrightarrow>
      model (run es' (run es init_app)) = model (run es init_app) \<and>
      \<not> isLoading (run es' (run es init_app)) \<and>
      stage (run es' (run es init_app)) = 2"
  proof
    assume h: "model (run es init_app) \<noteq> None \<and> \<not> isLoading (run es init_app)"
    then obtain m where m: "model (run es init_app) = Some m" by auto
    have "model (run es' (run es init_app)) = Some m \<and> \<not> isLoading (run es' (run es init_app))"
      using inv m h by (simp add: ready_run)
    then show "model (run es' (run es init_app)) = model (run es init_app) \<and>
      \<not> isLoading (run es' (run es init_app)) \<and>
      stage (run es' (run es init_app)) = 2"
      using m by (simp add: stage_def)
  qed
  show ?thesis using order second mono ready by blast
qed

theorem bootstrap_sequence_witness:
  "model (run [TfjsLoaded, MobilenetLoaded True, ModelResolved 7] init_app) = Some 7 \<and>
   \<not> isLoading (run [TfjsLoaded, MobilenetLoaded True, ModelResolved 7] init_app) \<and>
   0 < model_load_calls (run [TfjsLoaded, MobilenetLoaded True, ModelResolved 7] init_app) \<and>
   mobilenet (run [TfjsLoaded, MobilenetLoaded True, ModelResolved 7] init_app) = Loaded \<and>
   tfjs (run [TfjsLoaded, MobilenetLoaded True, ModelResolved 7] init_app) = Loaded \<and>
   model (run [ClickStart, ModelRejected, MobilenetLoaded False]
           (run [TfjsLoaded, MobilenetLoaded True, ModelResolved 7] init_app)) = Some 7 \<and>
   \<not> isLoading (run [ClickStart, ModelRejected, MobilenetLoaded False]
           (run [TfjsLoaded, MobilenetLoaded True, ModelResolved 7] init_app))"
proof -
  have a: "model (run [TfjsLoaded, MobilenetLoaded True, ModelResolved 7] init_app) = Some 7"
    by code_simp
  have b: "\<not> isLoading (run [TfjsLoaded, MobilenetLoaded True, ModelResolved 7] init_app)"
    by code_simp
  have c: "0 < model_load_calls (run [TfjsLoaded, MobilenetLoaded True, ModelResolved 7] init_app)"
    by code_simp
  show ?thesis
    using a b c bootstrap_sequence [of "[TfjsLoaded, MobilenetLoaded True, ModelResolved 7]"
        "[ClickStart, ModelRejected, MobilenetLoaded False]"]
    by simp
qed

section \<open>The classification tick\<close>

lemma classified_inflight:
  "inflight s = c # cs \<Longrightarrow>
   step (Classified outcome) s = recognizeImage_resume c outcome (s\<lparr>inflight := cs\<rparr>)"
  by (simp add: classified_def)

lemma resume_error:
  assumes "classify_result outcome = Inl e"
  shows "recognitionResult (recognizeImage_resume c outcome s) = recognitionResult s"
    and "message (recognizeImage_resume c outcome s) = message s"
    and "isError (recognizeImage_resume c outcome s) = isError s"
    and "timers (recognizeImage_resume c outcome s) = timers s"
    and "rafs (recognizeImage_resume c outcome s) = rafs s @ [(next_raf s, c)]"
    and "animationFrameRef (recognizeImage_resume c outcome s) = Some (next_raf s)"
  using assms by (simp_all add: recognizeImage_resume_def requestFrame_def)

lemma resume_result:
  assumes "classify_result outcome = Inr r"
  shows "recognitionResult (recognizeImage_resume c outcome s) = r"
  using assms by (simp add: recognizeImage_resume_def requestFrame_def)

lemma classify_result_failure:
  "classify_result (Inl e) = Inl e" "classify_result (Inr []) = Inl TypeError"
  by (simp_all add: classify_result_def)

lemma sorted_head_greatest:
  "sorted_wrt (\<lambda>a b. probability b \<le> probability a) (p # ps) \<Longrightarrow>
   q \<in> set (p # ps) \<Longrightarrow> probability q \<le> probability p"
  by auto

text \<open>
  The number \<^verbatim>\<open>0.8\<close> is the double with the bits \<^verbatim>\<open>3FE999999999999A\<close>, and
  \<^verbatim>\<open>0.91 * 100\<close> is the double 91.
\<close>

lemma threshold_value: "threshold = 3602879701896397 / 4503599627370496"
  unfolding threshold_def by code_simp

lemma ninety_one_percent: "fmul (to_double (91 / 100)) 100 = 91"
  by code_simp

lemma ninety_one: "toFixed2 (fmul (to_double (91 / 100)) 100) = ''91.00''"
  by code_simp

text \<open>
  C6. When the \<^verbatim>\<open>classify\<close> call of a tick rejects, or resolves to an empty array, the
  exception is caught: the recognition result, the message, the error flag and the
  pending message timers are as before, and the next frame is requested with the same
  callback.
\<close>

theorem inference_error_is_silent:
  assumes "inflight s = c # cs" and "outcome = Inl e \<or> outcome = Inr []"
  shows "(\<exists>e'. classify_result outcome = Inl e') \<and>
         recognitionResult (step (Classified outcome) s) = recognitionResult s \<and>
         message (step (Classified outcome) s) = message s \<and>
         isError (step (Classified outcome) s) = isError s \<and>
         timers (step (Classified outcome) s) = timers s \<and>
         rafs (step (Classified outcome) s) = rafs s @ [(next_raf s, c)] \<and>
         animationFrameRef (step (Classified outcome) s) = Some (next_raf s)"
proof -
  obtain e' where caught: "classify_result outcome = Inl e'"
    using assms(2) classify_result_failure by auto
  show ?thesis
    using resume_error [OF caught, of c "s\<lparr>inflight := cs\<rparr>"] caught
    by (simp add: classified_inflight [OF assms(1)] del: step.simps)
qed

theorem inference_error_is_silent_witness:
  "inflight (run [TfjsLoaded, MobilenetLoaded True, ModelResolved 7, ClickStart, Granted 0,
                  LoadedData, Frame 1] init_app)
     = [\<lparr>seen_model = Some 7, seen_isRecognizing = True\<rparr>] \<and>
   recognitionResult (step (Classified (Inr []))
      (run [TfjsLoaded, MobilenetLoaded True, ModelResolved 7, ClickStart, Granted 0,
            LoadedData, Frame 1] init_app))
     = \<lparr>name = None, confidence = None\<rparr> \<and>
   rafs (step (Classified (Inr []))
      (run [TfjsLoaded, MobilenetLoaded True, ModelResolved 7, ClickStart, Granted 0,
            LoadedData, Frame 1] init_app))
     = [(2, \<lparr>seen_model = Some 7, seen_isRecognizing = True\<rparr>)]"
proof -
  let ?s = "run [TfjsLoaded, MobilenetLoaded True, ModelResolved 7, ClickStart, Granted 0,
                 LoadedData, Frame 1] init_app"
  have a: "inflight ?s = [\<lparr>seen_model = Some 7, seen_isRecognizing = True\<rparr>]"
    by code_simp
  have b: "recognitionResult ?s = \<lparr>name = None, confidence = None\<rparr>"
    by code_simp
  have c: "rafs ?s = []" "next_raf ?s = 2"
    by code_simp+
  show ?thesis
    using inference_error_is_silent [OF a, of "Inr []"] a b c by simp
qed

text \<open>
  C4. When the \<^verbatim>\<open>classify\<close> call of a tick resolves to a non-empty array, the first
  prediction decides: if its probability is greater than the number \<^verbatim>\<open>0.8\<close>, the result
  is its class name with the probability times 100 in two decimals; if it is at most
  \<^verbatim>\<open>0.8\<close>, the result has no name and the fixed text. The probability \<^verbatim>\<open>0.91\<close> is
  written \<^verbatim>\<open>91.00\<close>. In an array ordered by descending probability the first
  prediction has the greatest probability.
\<close>

theorem confidence_threshold:
  assumes "inflight s = c # cs"
  shows "(threshold < probability p \<longrightarrow>
            recognitionResult (step (Classified (Inr (p # ps))) s) =
              \<lparr>name = Some (className p),
               confidence = Some (toFixed2 (fmul (probability p) 100))\<rparr>) \<and>
         (probability p \<le> threshold \<longrightarrow>
            recognitionResult (step (Classified (Inr (p # ps))) s) =
              \<lparr>name = None, confidence = Some limited_dataset_message\<rparr>) \<and>
         threshold = to_double (4 / 5) \<and>
         toFixed2 (fmul (to_double (91 / 100)) 100) = ''91.00'' \<and>
         (sorted_wrt (\<lambda>a b. probability b \<le> probability a) (p # ps) \<longrightarrow>
            (\<forall>q \<in> set (p # ps). probability q \<le> probability p))"
proof -
  have high: "threshold < probability p \<longrightarrow>
      recognitionResult (step (Classified (Inr (p # ps))) s) =
        \<lparr>name = Some (className p), confidence = Some (toFixed2 (fmul (probability p) 100))\<rparr>"
    by (simp add: classified_inflight [OF assms] resume_result classify_result_def
        del: step.simps)
  have low: "probability p \<le> threshold \<longrightarrow>
      recognitionResult (step (Classified (Inr (p # ps))) s) =
        \<lparr>name = None, confidence = Some limited_dataset_message\<rparr>"
    by (simp add: classified_inflight [OF assms] resume_result classify_result_def
        del: step.simps)
  have head: "sorted_wrt (\<lambda>a b. probability b \<le> probability a) (p # ps) \<longrightarrow>
      (\<forall>q \<in> set (p # ps). probability q \<le> probability p)"
    using sorted_head_greatest [of p ps] by blast
  show ?thesis
    using high low head ninety_one by (simp add: threshold_def)
qed

theorem confidence_threshold_witness:
  "inflight (run [TfjsLoaded, MobilenetLoaded True, ModelResolved 7, ClickStart, Granted 0,
                  LoadedData, Frame 1] init_app)
     = [\<lparr>seen_model = Some 7, seen_isRecognizing = True\<rparr>] \<and>
   recognitionResult (step (Classified (Inr [\<lparr>className = ''cat'', probability = to_double (91 / 100)\<rparr>]))
      (run [TfjsLoaded, MobilenetLoaded True, ModelResolved 7, ClickStart, Granted 0,
            LoadedData, Frame 1] init_app))
     = \<lparr>name = Some ''cat'', confidence = Some ''91.00''\<rparr> \<and>
   recognitionResult (step (Classified (Inr [\<lparr>className = ''cat'', probability = to_double (1 / 2)\<rparr>]))
      (run [TfjsLoaded, MobilenetLoaded True, ModelResolved 7, ClickStart, Granted 0,
            LoadedData, Frame 1] init_app))
     = \<lparr>name = None, confidence = Some limited_dataset_message\<rparr> \<and>
   recognitionResult (step (Classified (Inr [\<lparr>className = ''cat'', probability = to_double (4 / 5)\<rparr>]))
      (run [TfjsLoaded, MobilenetLoaded True, ModelResolved 7, ClickStart, Granted 0,
            LoadedData, Frame 1] init_app))
     = \<lparr>name = None, confidence = Some limited_dataset_message\<rparr>"
proof -
  let ?s = "run [TfjsLoaded, MobilenetLoaded True, ModelResolved 7, ClickStart, Granted 0,
                 LoadedData, Frame 1] init_app"
  have a: "inflight ?s = [\<lparr>seen_model = Some 7, seen_isRecognizing = True\<rparr>]"
    by code_simp
  have hi: "threshold < to_double (91 / 100)" by code_simp
  have lo: "to_double (1 / 2) \<le> threshold" by code_simp
  have r1: "recognitionResult (step (Classified (Inr [\<lparr>className = ''cat'', probability = to_double (91 / 100)\<rparr>])) ?s)
      = \<lparr>name = Some ''cat'', confidence = Some ''91.00''\<rparr>"
    using confidence_threshold [OF a, of "\<lparr>className = ''cat'', probability = to_double (91 / 100)\<rparr>" "[]"] hi
    by (simp del: step.simps run.simps)
  have r2: "recognitionResult (step (Classified (Inr [\<lparr>className = ''cat'', probability = to_double (1 / 2)\<rparr>])) ?s)
      = \<lparr>name = None, confidence = Some limited_dataset_message\<rparr>"
    using confidence_threshold [OF a, of "\<lparr>className = ''cat'', probability = to_double (1 / 2)\<rparr>" "[]"] lo
    by (simp del: step.simps run.simps)
  have r3: "recognitionResult (step (Classified (Inr [\<lparr>className = ''cat'', probability = to_double (4 / 5)\<rparr>])) ?s)
      = \<lparr>name = None, confidence = Some limited_dataset_message\<rparr>"
    using confidence_threshold [OF a, of "\<lparr>className = ''cat'', probability = to_double (4 / 5)\<rparr>" "[]"]
    by (simp add: threshold_def del: step.simps run.simps)
  show ?thesis
    using a r1 r2 r3 by blast
qed

section \<open>Notifications\<close>

lemma elapse_message:
  assumes "0 \<le> d"
  shows "message (elapse d s) =
           (if \<exists>due \<in> set (timers s). due \<le> clock s + d then '''' else message s)"
    and "isError (elapse d s) =
           (if \<exists>due \<in> set (timers s). due \<le> clock s + d then False else isError s)"
    and "timers (elapse d s) = filter (\<lambda>due. \<not> due \<le> clock s + d) (timers s)"
  using assms by (simp_all add: elapse_def Let_def)

lemma showMessage_posts:
  "message (showMessage t e s) = t"
  "isError (showMessage t e s) = e"
  "timers (showMessage t e s) = timers s @ [clock s + 3000]"
  "clock (showMessage t e s) = clock s"
  by (simp_all add: showMessage_def)

text \<open>
  C5, as the code has it. Posting a message replaces the displayed text and flag at once
  and starts a timer of 3000 ms, and leaves every earlier timer pending. A message
  posted while no timer is pending is displayed for every delay below 3000 ms and is
  cleared at 3000 ms. When a timer of an earlier message comes due, it clears the
  message displayed then, also a later one that is still inside its own 3000 ms.
\<close>

theorem notification_expiry:
  "message (showMessage t e s) = t \<and> isError (showMessage t e s) = e \<and>
   timers (showMessage t e s) = timers s @ [clock s + 3000] \<and>
   (timers s = [] \<and> 0 \<le> d \<and> d < 3000 \<longrightarrow>
      message (elapse d (showMessage t e s)) = t \<and> isError (elapse d (showMessage t e s)) = e) \<and>
   (timers s = [] \<longrightarrow>
      message (elapse 3000 (showMessage t e s)) = '''' \<and>
      \<not> isError (elapse 3000 (showMessage t e s)) \<and>
      timers (elapse 3000 (showMessage t e s)) = []) \<and>
   (0 \<le> d \<and> (\<exists>due \<in> set (timers s). due \<le> clock s + d) \<longrightarrow>
      message (elapse d (showMessage t e s)) = '''' \<and>
      \<not> isError (elapse d (showMessage t e s)))"
proof -
  have post: "message (showMessage t e s) = t \<and> isError (showMessage t e s) = e \<and>
      timers (showMessage t e s) = timers s @ [clock s + 3000]"
    by (simp add: showMessage_posts)
  have shown: "timers s = [] \<and> 0 \<le> d \<and> d < 3000 \<longrightarrow>
      message (elapse d (showMessage t e s)) = t \<and> isError (elapse d (showMessage t e s)) = e"
    by (simp add: elapse_message showMessage_posts)
  have cleared: "timers s = [] \<longrightarrow>
      message (elapse 3000 (showMessage t e s)) = '''' \<and>
      \<not> isError (elapse 3000 (showMessage t e s)) \<and>
      timers (elapse 3000 (showMessage t e s)) = []"
    by (simp add: elapse_message showMessage_posts)
  have early: "0 \<le> d \<and> (\<exists>due \<in> set (timers s). due \<le> clock s + d) \<longrightarrow>
      message (elapse d (showMessage t e s)) = '''' \<and>
      \<not> isError (elapse d (showMessage t e s))"
    by (auto simp add: elapse_message showMessage_posts)
  show ?thesis using post shown cleared early by blast
qed

theorem notification_expiry_witness:
  "timers (elapse 5000 init_app) = [] \<and>
   message (elapse 2999 (showMessage ''A'' True (elapse 5000 init_app))) = ''A'' \<and>
   message (elapse 3000 (showMessage ''A'' True (elapse 5000 init_app))) = '''' \<and>
   (\<exists>due \<in> set (timers (elapse 2000 (showMessage ''A'' True (elapse 5000 init_app)))).
      due \<le> clock (elapse 2000 (showMessage ''A'' True (elapse 5000 init_app))) + 1000) \<and>
   message (elapse 1000 (showMessage ''B'' False
      (elapse 2000 (showMessage ''A'' True (elapse 5000 init_app))))) = ''''"
proof -
  have a: "timers (elapse 5000 init_app) = []" by code_simp
  have b: "\<exists>due \<in> set (timers (elapse 2000 (showMessage ''A'' True (elapse 5000 init_app)))).
      due \<le> clock (elapse 2000 (showMessage ''A'' True (elapse 5000 init_app))) + 1000"
    by code_simp
  have c: "message (elapse 2999 (showMessage ''A'' True (elapse 5000 init_app))) = ''A''"
    using notification_expiry [of "''A''" True "elapse 5000 init_app" 2999] a by simp
  have d: "message (elapse 3000 (showMessage ''A'' True (elapse 5000 init_app))) = ''''"
    using notification_expiry [of "''A''" True "elapse 5000 init_app" 0] a by simp
  have e: "message (elapse 1000 (showMessage ''B'' False
      (elapse 2000 (showMessage ''A'' True (elapse 5000 init_app))))) = ''''"
    using notification_expiry [of "''B''" False
        "elapse 2000 (showMessage ''A'' True (elapse 5000 init_app))" 1000] b
    by (simp del: set_filter)
  show ?thesis using a b c d e by blast
qed

text \<open>
  C5 as stated fails. With no timer pending, A is posted, then B 2000 ms later, inside
  the window of A. After another 1000 ms the timer of A fires and clears B, which is
  then 1000 ms old.
\<close>

theorem notification_supersession_counterexample:
  "timers (elapse 5000 init_app) = [] \<and>
   message (showMessage ''B'' False
      (elapse 2000 (showMessage ''A'' False (elapse 5000 init_app)))) = ''B'' \<and>
   message (elapse 999 (showMessage ''B'' False
      (elapse 2000 (showMessage ''A'' False (elapse 5000 init_app))))) = ''B'' \<and>
   message (elapse 1000 (showMessage ''B'' False
      (elapse 2000 (showMessage ''A'' False (elapse 5000 init_app))))) = ''''"
  by code_simp

section \<open>Start without a model\<close>

lemma commit_without_model:
  assumes "model new = None"
  shows "requests (commit old new) = requests new" and "pending (commit old new) = pending new"
  using assms
  by (simp_all add: commit_def Let_def webcam_effect_def teardown_keeps model_effect_keeps)

text \<open>
  C3, as the code has it. While there is no model, a click on Start never calls
  \<^verbatim>\<open>getUserMedia\<close> and leaves the video's stream as it is. While \<^verbatim>\<open>isLoading\<close> is set
  the button is disabled: the click changes nothing and posts no message.
\<close>

theorem start_without_model:
  assumes "model s = None"
  shows "requests (step ClickStart s) = requests s \<and>
         pending (step ClickStart s) = pending s \<and>
         srcObject (step ClickStart s) = srcObject s \<and>
         (isLoading s \<longrightarrow> step ClickStart s = s)"
proof -
  have m: "model (startRecognition s) = None"
    using assms by (simp add: startRecognition_def showMessage_def)
  have keep: "requests (step ClickStart s) = requests s \<and> pending (step ClickStart s) = pending s
      \<and> srcObject (step ClickStart s) = srcObject s"
    using commit_without_model [OF m, of s]
    by (simp add: click_start_def commit_keeps) (simp add: startRecognition_def showMessage_def)
  have off: "isLoading s \<longrightarrow> step ClickStart s = s"
    by (simp add: click_start_def)
  show ?thesis using keep off by blast
qed

theorem start_without_model_witness:
  "model (run [TfjsLoaded, MobilenetLoaded True, ModelRejected] init_app) = None \<and>
   requests (step ClickStart (run [TfjsLoaded, MobilenetLoaded True, ModelRejected] init_app)) = [] \<and>
   model init_app = None \<and> isLoading init_app \<and> step ClickStart init_app = init_app"
proof -
  let ?s = "run [TfjsLoaded, MobilenetLoaded True, ModelRejected] init_app"
  have a: "model ?s = None" "requests ?s = []"
    by code_simp+
  have b: "model init_app = None" "isLoading init_app"
    by code_simp+
  have c: "requests (step ClickStart ?s) = []"
    using start_without_model [OF a(1)] a by (simp del: step.simps run.simps)
  have d: "step ClickStart init_app = init_app"
    using start_without_model [OF b(1)] b by (simp del: step.simps run.simps)
  show ?thesis using a b c d by blast
qed

text \<open>
  C3 as stated fails. After the model failed to load, a click on Start sets
  \<^verbatim>\<open>isRecognizing\<close> and the message is the one of a successful start; while the model
  is still loading the click is ignored: the state is as before, no message is posted.
\<close>

theorem start_before_ready_counterexample:
  "model (run [TfjsLoaded, MobilenetLoaded True, ModelRejected] init_app) = None \<and>
   isRecognizing (run [TfjsLoaded, MobilenetLoaded True, ModelRejected, ClickStart] init_app) \<and>
   message (run [TfjsLoaded, MobilenetLoaded True, ModelRejected, ClickStart] init_app)
     = ''Recognition started! Looking for objects...'' \<and>
   \<not> isError (run [TfjsLoaded, MobilenetLoaded True, ModelRejected, ClickStart] init_app) \<and>
   model (run [TfjsLoaded, MobilenetLoaded True] init_app) = None \<and>
   run [TfjsLoaded, MobilenetLoaded True, ClickStart] init_app
     = run [TfjsLoaded, MobilenetLoaded True] init_app"
  by code_simp

section \<open>Flipping the camera\<close>

lemma teardown_changes:
  "stops (teardown s) = stops s @ (case srcObject s of None \<Rightarrow> [] | Some sid \<Rightarrow> [sid])"
  "rafs (teardown s) = (case animationFrameRef s of None \<Rightarrow> rafs s
                        | Some h \<Rightarrow> filter (\<lambda>(h', c). h' \<noteq> h) (rafs s))"
  by (simp_all add: teardown_def stop_tracks_def cancel_frame_def split: option.splits)

lemma startWebcam_changes:
  "requests (startWebcam s) = requests s @ [(length (requests s), facingMode s)]"
  "pending (startWebcam s) = pending s @
     [(length (requests s), \<lparr>seen_model = model s, seen_isRecognizing = isRecognizing s\<rparr>)]"
  "stops (startWebcam s) = stops s"
  "rafs (startWebcam s) = rafs s"
  "srcObject (startWebcam s) = srcObject s"
  "facingMode (startWebcam s) = facingMode s"
  by (simp_all add: startWebcam_def Let_def)

lemma flip_mode_changes: "flip_mode m \<noteq> m"
  by (simp add: flip_mode_def)

lemma flipCamera_keeps:
  "facingMode (flipCamera s) = flip_mode (facingMode s)"
  "requests (flipCamera s) = requests s"
  "pending (flipCamera s) = pending s"
  "stops (flipCamera s) = stops s"
  "rafs (flipCamera s) = rafs s"
  "srcObject (flipCamera s) = srcObject s"
  "animationFrameRef (flipCamera s) = animationFrameRef s"
  "model (flipCamera s) = model s"
  "isRecognizing (flipCamera s) = isRecognizing s"
  "scriptsLoaded (flipCamera s) = scriptsLoaded s"
  by (simp_all add: flipCamera_def showMessage_def)

lemma click_flip_recognizing:
  assumes "isRecognizing s" and "model s \<noteq> None"
  shows "step ClickFlip s = startWebcam (teardown (flipCamera s))"
  using assms flip_mode_changes [of "facingMode s"]
  by (simp add: click_flip_def commit_def Let_def webcam_effect_def teardown_keeps flipCamera_keeps)

text \<open>
  C7. A click on Flip while recognizing (\<^verbatim>\<open>isRecognizing\<close> set, model there, the video
  showing a live stream): the facing mode becomes the other one; \<^verbatim>\<open>getUserMedia\<close> is
  called once more, with the new facing mode, and that call is pending; the tracks of
  the stream shown so far receive \<^verbatim>\<open>stop()\<close> once, so that stream is no longer live;
  the scheduled frame callback is cancelled; earlier calls and their facing modes are
  as they were.
\<close>

theorem flip_reacquires:
  assumes "recognizing s" and "srcObject s = Some sid"
  shows "facingMode (step ClickFlip s) = flip_mode (facingMode s) \<and>
         flip_mode ''user'' = ''environment'' \<and> flip_mode ''environment'' = ''user'' \<and>
         requests (step ClickFlip s) =
           requests s @ [(length (requests s), flip_mode (facingMode s))] \<and>
         pending (step ClickFlip s) = pending s @
           [(length (requests s), \<lparr>seen_model = model s, seen_isRecognizing = True\<rparr>)] \<and>
         stops (step ClickFlip s) = stops s @ [sid] \<and>
         count_list (stops s) sid = 0 \<and>
         count_list (stops (step ClickFlip s)) sid = 1 \<and>
         \<not> holds_stream (step ClickFlip s) \<and>
         (\<forall>h c. animationFrameRef s = Some h \<longrightarrow> (h, c) \<notin> set (rafs (step ClickFlip s)))"
proof -
  have rec: "isRecognizing s" "model s \<noteq> None" and live: "sid \<notin> set (stops s)"
    using assms by (simp_all add: recognizing_def holds_stream_def)
  have eq: "step ClickFlip s = startWebcam (teardown (flipCamera s))"
    using rec by (rule click_flip_recognizing)
  have mode: "facingMode (step ClickFlip s) = flip_mode (facingMode s)"
    by (simp add: eq startWebcam_changes teardown_keeps flipCamera_keeps del: step.simps)
  have req: "requests (step ClickFlip s) =
      requests s @ [(length (requests s), flip_mode (facingMode s))]"
    by (simp add: eq startWebcam_changes teardown_keeps flipCamera_keeps del: step.simps)
  have pend: "pending (step ClickFlip s) = pending s @
      [(length (requests s), \<lparr>seen_model = model s, seen_isRecognizing = True\<rparr>)]"
    using rec(1) by (simp add: eq startWebcam_changes teardown_keeps flipCamera_keeps del: step.simps)
  have st: "stops (step ClickFlip s) = stops s @ [sid]"
    using assms(2)
    by (simp add: eq startWebcam_changes teardown_changes flipCamera_keeps del: step.simps)
  have zero: "count_list (stops s) sid = 0"
    using live by (simp add: count_list_0_iff)
  have once: "count_list (stops (step ClickFlip s)) sid = 1"
    using zero by (simp add: st del: step.simps)
  have src: "srcObject (step ClickFlip s) = Some sid"
    using assms(2) by (simp only: eq startWebcam_changes teardown_keeps flipCamera_keeps)
  have dead: "\<not> holds_stream (step ClickFlip s)"
    by (simp add: holds_stream_def src st del: step.simps)
  have cancelled: "\<forall>h c. animationFrameRef s = Some h \<longrightarrow> (h, c) \<notin> set (rafs (step ClickFlip s))"
    by (auto simp add: eq startWebcam_changes teardown_changes teardown_keeps flipCamera_keeps
        simp del: step.simps)
  have names: "flip_mode ''user'' = ''environment'' \<and> flip_mode ''environment'' = ''user''"
    by (simp add: flip_mode_def)
  show ?thesis
    using mode names req pend st zero once dead cancelled by blast
qed

theorem flip_reacquires_witness:
  "recognizing (run [TfjsLoaded, MobilenetLoaded True, ModelResolved 7, ClickStart, Granted 0,
                     LoadedData] init_app) \<and>
   srcObject (run [TfjsLoaded, MobilenetLoaded True, ModelResolved 7, ClickStart, Granted 0,
                     LoadedData] init_app) = Some 0 \<and>
   requests (step ClickFlip (run [TfjsLoaded, MobilenetLoaded True, ModelResolved 7, ClickStart,
                     Granted 0, LoadedData] init_app)) = [(0, ''environment''), (1, ''user'')] \<and>
   stops (step ClickFlip (run [TfjsLoaded, MobilenetLoaded True, ModelResolved 7, ClickStart,
                     Granted 0, LoadedData] init_app)) = [0] \<and>
   rafs (step ClickFlip (run [TfjsLoaded, MobilenetLoaded True, ModelResolved 7, ClickStart,
                     Granted 0, LoadedData] init_app)) = []"
proof -
  let ?s = "run [TfjsLoaded, MobilenetLoaded True, ModelResolved 7, ClickStart, Granted 0,
                 LoadedData] init_app"
  have a: "recognizing ?s" by code_simp
  have b: "srcObject ?s = Some 0" by code_simp
  have c: "requests ?s = [(0, ''environment'')]" "stops ?s = []" "facingMode ?s = ''environment''"
    by code_simp+
  have d: "rafs (step ClickFlip ?s) = []" by code_simp
  have e: "requests (step ClickFlip ?s) = [(0, ''environment''), (1, ''user'')] \<and>
      stops (step ClickFlip ?s) = [0]"
    using flip_reacquires [OF a b] c by (simp del: step.simps run.simps)
  show ?thesis using a b d e by blast
qed

section \<open>Races with pending work\<close>

text \<open>
  What the teardown does do: after a click on Stop the stream shown by the video has
  received \<^verbatim>\<open>stop()\<close>, and the frame handle stored in \<^verbatim>\<open>animationFrameRef\<close> is no
  longer scheduled. A callback whose guard fails does nothing.
\<close>

lemma click_stop_unfold:
  "isRecognizing s \<Longrightarrow> step ClickStop s = teardown (teardown (stopRecognition s))"
  by (simp add: click_stop_def commit_def Let_def webcam_effect_def teardown_keeps)
     (simp add: stopRecognition_def showMessage_def)

lemma stop_stops_tracks:
  assumes "isRecognizing s"
  shows "\<not> holds_stream (step ClickStop s)"
  by (simp add: click_stop_unfold [OF assms] holds_stream_def teardown_keeps teardown_changes
      del: step.simps split: option.splits)

lemma stop_cancels_handle:
  assumes "isRecognizing s" and "animationFrameRef s = Some h"
  shows "(h, c) \<notin> set (rafs (step ClickStop s))"
  using assms(2)
  by (simp add: click_stop_unfold [OF assms(1)] teardown_keeps teardown_changes
      del: step.simps) (simp add: stopRecognition_def showMessage_def)

lemma guard_blocks:
  "seen_model c = None \<or> \<not> seen_isRecognizing c \<Longrightarrow> recognizeImage c s = s"
  by (simp add: recognizeImage_def)

text \<open>
  Every callback that is ever scheduled passes the guard: \<^verbatim>\<open>startWebcam\<close> runs only
  in a render with a model and \<^verbatim>\<open>isRecognizing\<close> set, and the callback keeps the
  values of that render. So the guard never ends a loop that has started.
\<close>

lemma list_all_filter: "list_all P xs \<Longrightarrow> list_all P (filter Q xs)"
  by (induction xs) simp_all

lemma list_all_map_of: "list_all (\<lambda>(k, v). P v) xs \<Longrightarrow> map_of xs k = Some v \<Longrightarrow> P v"
  by (induction xs) (auto split: if_splits)

lemma teardown_callbacks:
  "list_all (\<lambda>(h, c). passes_guard c) (rafs s) \<Longrightarrow>
   list_all (\<lambda>(h, c). passes_guard c) (rafs (teardown s))"
  by (simp add: teardown_changes list_all_filter split: option.splits)

lemma webcam_effect_callbacks:
  assumes "callbacks_pass s"
  shows "callbacks_pass (webcam_effect (teardown s))"
proof -
  have r: "list_all (\<lambda>(h, c). passes_guard c) (rafs (teardown s))"
    using assms by (simp add: callbacks_pass_def teardown_callbacks)
  have rr: "list_all (\<lambda>(h, c). passes_guard c) (rafs (teardown (teardown s)))"
    using r by (rule teardown_callbacks)
  show ?thesis
    using assms r rr
    by (simp add: callbacks_pass_def webcam_effect_def startWebcam_def Let_def teardown_keeps
        passes_guard_def)
qed

lemma model_effect_callbacks: "callbacks_pass (model_effect s) = callbacks_pass s"
  by (simp add: callbacks_pass_def model_effect_keeps)

lemma commit_callbacks: "callbacks_pass new \<Longrightarrow> callbacks_pass (commit old new)"
  by (simp add: commit_def Let_def webcam_effect_callbacks model_effect_callbacks)

lemma showMessage_callbacks: "callbacks_pass (showMessage t e s) = callbacks_pass s"
  by (simp add: callbacks_pass_def showMessage_def)

lemma callbacks_pass_init: "callbacks_pass init_app"
  by code_simp

lemma callbacks_pass_step:
  assumes "callbacks_pass s"
  shows "callbacks_pass (step e s)"
proof (cases e)
  case ClickStart
  have "callbacks_pass (startRecognition s)"
    using assms by (simp add: startRecognition_def showMessage_callbacks) (simp add: callbacks_pass_def)
  then show ?thesis using assms ClickStart by (simp add: click_start_def commit_callbacks)
next
  case ClickStop
  have "callbacks_pass (stopRecognition s)"
    using assms by (simp add: stopRecognition_def showMessage_callbacks) (simp add: callbacks_pass_def)
  then show ?thesis using assms ClickStop by (simp add: click_stop_def commit_callbacks)
next
  case ClickFlip
  have "callbacks_pass (flipCamera s)"
    using assms by (simp add: flipCamera_def showMessage_callbacks) (simp add: callbacks_pass_def)
  then show ?thesis using ClickFlip by (simp add: click_flip_def commit_callbacks)
next
  case TfjsLoaded
  then show ?thesis using assms by (simp add: tfjs_loaded_def callbacks_pass_def)
next
  case TfjsFailed
  then show ?thesis using assms
    by (simp add: tfjs_failed_def showMessage_callbacks) (simp add: callbacks_pass_def)
next
  case (MobilenetLoaded d)
  have "callbacks_pass (showMessage get_ready_message False
      (s\<lparr>mobilenet := Loaded, window_mobilenet := d, scriptsLoaded := True\<rparr>))"
    using assms by (simp add: showMessage_callbacks) (simp add: callbacks_pass_def)
  then show ?thesis using assms MobilenetLoaded by (simp add: mobilenet_loaded_def commit_callbacks)
next
  case MobilenetFailed
  then show ?thesis using assms
    by (simp add: mobilenet_failed_def showMessage_callbacks) (simp add: callbacks_pass_def)
next
  case (ModelResolved m)
  have "callbacks_pass ((showMessage all_set_message False
      (s\<lparr>model_loading := False, model := Some m, isLoading := False\<rparr>))\<lparr>showSplash := False\<rparr>)"
    using assms by (simp add: callbacks_pass_def showMessage_def)
  then show ?thesis using assms ModelResolved by (simp add: model_resolved_def commit_callbacks)
next
  case ModelRejected
  have "callbacks_pass ((showMessage model_failed_message True (s\<lparr>model_loading := False\<rparr>))
      \<lparr>isLoading := False, showSplash := False\<rparr>)"
    using assms by (simp add: callbacks_pass_def showMessage_def)
  then show ?thesis using assms ModelRejected by (simp add: model_rejected_def commit_callbacks)
next
  case (Granted a)
  show ?thesis
  proof (cases "map_of (pending s) a")
    case None
    then show ?thesis using assms Granted by (simp add: granted_def)
  next
    case (Some c)
    have "passes_guard c"
      using assms Some by (auto simp add: callbacks_pass_def dest: list_all_map_of)
    then show ?thesis using assms Granted Some
      by (simp add: granted_def callbacks_pass_def list_all_filter)
  qed
next
  case (Denied a)
  show ?thesis
  proof (cases "map_of (pending s) a")
    case None
    then show ?thesis using assms Denied by (simp add: denied_def)
  next
    case (Some c)
    have "callbacks_pass ((showMessage webcam_failed_message True
        (s\<lparr>pending := filter (\<lambda>(a', c). a' \<noteq> a) (pending s)\<rparr>))\<lparr>isRecognizing := False\<rparr>)"
      using assms by (simp add: callbacks_pass_def showMessage_def list_all_filter)
    then show ?thesis using Denied Some by (simp add: denied_def commit_callbacks)
  qed
next
  case LoadedData
  then show ?thesis using assms
    by (auto simp add: loaded_data_def callbacks_pass_def requestFrame_def split: option.splits)
next
  case (Frame h)
  show ?thesis
  proof (cases "map_of (rafs s) h")
    case None
    then show ?thesis using assms Frame by (simp add: frame_def)
  next
    case (Some c)
    have "passes_guard c"
      using assms Some by (auto simp add: callbacks_pass_def dest: list_all_map_of)
    then show ?thesis using assms Frame Some
      by (simp add: frame_def recognizeImage_def callbacks_pass_def list_all_filter passes_guard_def)
  qed
next
  case (Classified outcome)
  show ?thesis
  proof (cases "inflight s")
    case Nil
    then show ?thesis using assms Classified by (simp add: classified_def)
  next
    case (Cons c cs)
    then show ?thesis using assms Classified
      by (simp add: classified_def recognizeImage_resume_def requestFrame_def callbacks_pass_def
          split: sum.splits)
  qed
next
  case (Elapse d)
  then show ?thesis using assms by (simp add: elapse_def Let_def callbacks_pass_def)
qed

lemma callbacks_pass_run: "callbacks_pass s \<Longrightarrow> callbacks_pass (run es s)"
  by (induction es arbitrary: s) (simp_all add: callbacks_pass_step)

text \<open>
  The general form of the race of C2: in any state reached from the first render in
  which recognition is on and a tick is waiting for \<^verbatim>\<open>classify\<close>, a click on Stop
  followed by the settling of that call leaves a frame scheduled, and when that frame
  runs \<^verbatim>\<open>classify\<close> is called once more, with \<^verbatim>\<open>isRecognizing\<close> false.
\<close>

lemma frame_runs_tick:
  assumes "callbacks_pass s" and "map_of (rafs s) h = Some c"
  shows "classify_calls (step (Frame h) s) = Suc (classify_calls s)"
proof -
  have "passes_guard c"
    using assms by (auto simp add: callbacks_pass_def dest: list_all_map_of)
  then show ?thesis
    using assms(2) by (simp add: frame_def recognizeImage_def passes_guard_def)
qed

lemma tick_survives_stop:
  assumes "s = run es init_app" and "isRecognizing s" and "inflight s = c # cs"
  shows "\<not> isRecognizing (step (Classified outcome) (step ClickStop s)) \<and>
         (next_raf s, c) \<in> set (rafs (step (Classified outcome) (step ClickStop s))) \<and>
         (\<forall>h c'. map_of (rafs (step (Classified outcome) (step ClickStop s))) h = Some c' \<longrightarrow>
            classify_calls (step (Frame h) (step (Classified outcome) (step ClickStop s)))
              = Suc (classify_calls s))"
proof -
  let ?t = "step ClickStop s"
  let ?u = "step (Classified outcome) ?t"
  have "callbacks_pass s"
    unfolding assms(1) by (rule callbacks_pass_run) (rule callbacks_pass_init)
  then have "callbacks_pass ?t" by (rule callbacks_pass_step)
  then have pass: "callbacks_pass ?u" by (rule callbacks_pass_step)
  have stop: "?t = teardown (teardown (stopRecognition s))"
    using assms(2) by (rule click_stop_unfold)
  have t: "inflight ?t = c # cs" "\<not> isRecognizing ?t" "next_raf ?t = next_raf s"
      "classify_calls ?t = classify_calls s"
    using assms(3)
    by (simp_all add: stop teardown_keeps del: step.simps)
       (simp_all add: stopRecognition_def showMessage_def)
  have u: "?u = recognizeImage_resume c outcome (?t\<lparr>inflight := cs\<rparr>)"
    using t(1) by (rule classified_inflight)
  have off: "\<not> isRecognizing ?u"
    using t(2) by (simp add: u recognizeImage_resume_def requestFrame_def del: step.simps
        split: sum.splits)
  have sched: "(next_raf s, c) \<in> set (rafs ?u)"
    using t(3) by (simp add: u recognizeImage_resume_def requestFrame_def del: step.simps
        split: sum.splits)
  have calls: "classify_calls ?u = classify_calls s"
    using t(4) by (simp add: u recognizeImage_resume_def requestFrame_def del: step.simps
        split: sum.splits)
  have run: "\<forall>h c'. map_of (rafs ?u) h = Some c' \<longrightarrow>
      classify_calls (step (Frame h) ?u) = Suc (classify_calls s)"
    using frame_runs_tick [OF pass] calls by (simp del: step.simps)
  show ?thesis using off sched run by blast
qed

text \<open>
  The general form of the race of C1 and C8: in any state reached from the first render
  in which recognition is on and a camera request is pending, a click on Stop followed
  by the grant of that request leaves the video with a live stream and
  \<^verbatim>\<open>isRecognizing\<close> false.
\<close>

lemma teardown_streams:
  assumes "streams_inv s"
  shows "streams_inv (teardown s)"
proof -
  have src: "\<forall>sid. srcObject s = Some sid \<longrightarrow> granted_before (teardown s) sid"
    using assms by (simp add: streams_inv_def granted_before_def teardown_keeps)
  have old: "\<forall>sid \<in> set (stops s). granted_before (teardown s) sid"
    using assms by (simp add: streams_inv_def granted_before_def teardown_keeps)
  have new: "\<forall>sid \<in> set (stops (teardown s)). granted_before (teardown s) sid"
    using src old by (cases "srcObject s") (simp_all add: teardown_changes)
  show ?thesis
    using assms src new by (simp add: streams_inv_def granted_before_def teardown_keeps)
qed

lemma startWebcam_streams:
  assumes "streams_inv s"
  shows "streams_inv (startWebcam s)"
  using assms
  by (auto simp add: streams_inv_def granted_before_def startWebcam_changes less_Suc_eq)

lemma webcam_effect_streams: "streams_inv s \<Longrightarrow> streams_inv (webcam_effect s)"
  by (simp add: webcam_effect_def teardown_streams startWebcam_streams)

lemma model_effect_streams: "streams_inv (model_effect s) = streams_inv s"
  by (simp add: streams_inv_def granted_before_def model_effect_keeps)

lemma commit_streams: "streams_inv new \<Longrightarrow> streams_inv (commit old new)"
  by (simp add: commit_def Let_def webcam_effect_streams teardown_streams model_effect_streams)

lemma streams_inv_init: "streams_inv init_app"
  by (simp add: streams_inv_def granted_before_def init_app_def initial_state_def
      webcam_effect_def teardown_keeps teardown_changes model_effect_keeps script_effect_def
      showMessage_def)

lemma fst_set_filter: "fst ` set (filter (\<lambda>(a', c). a' \<noteq> a) xs) = fst ` set xs - {a}"
  by (induction xs) auto

lemma map_of_fst: "map_of xs a = Some c \<Longrightarrow> a \<in> fst ` set xs"
  by (induction xs) (auto split: if_splits)

lemma streams_inv_step:
  assumes "streams_inv s"
  shows "streams_inv (step e s)"
proof (cases e)
  case ClickStart
  have "streams_inv (startRecognition s)"
    using assms by (simp add: streams_inv_def granted_before_def startRecognition_def showMessage_def)
  then show ?thesis using assms ClickStart by (simp add: click_start_def commit_streams)
next
  case ClickStop
  have "streams_inv (stopRecognition s)"
    using assms by (simp add: streams_inv_def granted_before_def stopRecognition_def showMessage_def)
  then show ?thesis using assms ClickStop by (simp add: click_stop_def commit_streams)
next
  case ClickFlip
  have "streams_inv (flipCamera s)"
    using assms by (simp add: streams_inv_def granted_before_def flipCamera_keeps)
  then show ?thesis using ClickFlip by (simp add: click_flip_def commit_streams)
next
  case TfjsLoaded
  then show ?thesis using assms
    by (simp add: tfjs_loaded_def streams_inv_def granted_before_def)
next
  case TfjsFailed
  then show ?thesis using assms
    by (simp add: tfjs_failed_def streams_inv_def granted_before_def showMessage_def)
next
  case (MobilenetLoaded d)
  have "streams_inv (showMessage get_ready_message False
      (s\<lparr>mobilenet := Loaded, window_mobilenet := d, scriptsLoaded := True\<rparr>))"
    using assms by (simp add: streams_inv_def granted_before_def showMessage_def)
  then show ?thesis using assms MobilenetLoaded by (simp add: mobilenet_loaded_def commit_streams)
next
  case MobilenetFailed
  then show ?thesis using assms
    by (simp add: mobilenet_failed_def streams_inv_def granted_before_def showMessage_def)
next
  case (ModelResolved m)
  have "streams_inv ((showMessage all_set_message False
      (s\<lparr>model_loading := False, model := Some m, isLoading := False\<rparr>))\<lparr>showSplash := False\<rparr>)"
    using assms by (simp add: streams_inv_def granted_before_def showMessage_def)
  then show ?thesis using assms ModelResolved by (simp add: model_resolved_def commit_streams)
next
  case ModelRejected
  have "streams_inv ((showMessage model_failed_message True (s\<lparr>model_loading := False\<rparr>))
      \<lparr>isLoading := False, showSplash := False\<rparr>)"
    using assms by (simp add: streams_inv_def granted_before_def showMessage_def)
  then show ?thesis using assms ModelRejected by (simp add: model_rejected_def commit_streams)
next
  case (Granted a)
  show ?thesis
  proof (cases "map_of (pending s) a")
    case None
    then show ?thesis using assms Granted by (simp add: granted_def)
  next
    case (Some c)
    have "a \<in> fst ` set (pending s)" using Some by (rule map_of_fst)
    then show ?thesis using assms Granted Some
      by (auto simp add: granted_def streams_inv_def granted_before_def fst_set_filter)
  qed
next
  case (Denied a)
  show ?thesis
  proof (cases "map_of (pending s) a")
    case None
    then show ?thesis using assms Denied by (simp add: denied_def)
  next
    case (Some c)
    have "streams_inv ((showMessage webcam_failed_message True
        (s\<lparr>pending := filter (\<lambda>(a', c). a' \<noteq> a) (pending s)\<rparr>))\<lparr>isRecognizing := False\<rparr>)"
      using assms
      by (auto simp add: streams_inv_def granted_before_def showMessage_def fst_set_filter)
    then show ?thesis using Denied Some by (simp add: denied_def commit_streams)
  qed
next
  case LoadedData
  then show ?thesis using assms
    by (simp add: loaded_data_def streams_inv_def granted_before_def requestFrame_def
        split: option.splits)
next
  case (Frame h)
  then show ?thesis using assms
    by (simp add: frame_def recognizeImage_def streams_inv_def granted_before_def
        split: option.splits)
next
  case (Classified outcome)
  then show ?thesis using assms
    by (simp add: classified_def recognizeImage_resume_def requestFrame_def streams_inv_def
        granted_before_def split: list.splits sum.splits)
next
  case (Elapse d)
  then show ?thesis using assms
    by (simp add: elapse_def Let_def streams_inv_def granted_before_def)
qed

lemma streams_inv_run: "streams_inv s \<Longrightarrow> streams_inv (run es s)"
  by (induction es arbitrary: s) (simp_all add: streams_inv_step)

lemma late_grant_is_held:
  assumes "s = run es init_app" and "isRecognizing s" and "map_of (pending s) a = Some c"
  shows "\<not> isRecognizing (step (Granted a) (step ClickStop s)) \<and>
         srcObject (step (Granted a) (step ClickStop s)) = Some a \<and>
         holds_stream (step (Granted a) (step ClickStop s))"
proof -
  let ?t = "step ClickStop s"
  have inv: "streams_inv s"
    unfolding assms(1) by (rule streams_inv_run) (rule streams_inv_init)
  have a: "a \<in> fst ` set (pending s)" using assms(3) by (rule map_of_fst)
  have fresh: "a \<notin> set (stops s)" "srcObject s \<noteq> Some a"
    using inv a by (auto simp add: streams_inv_def granted_before_def)
  have stop: "?t = teardown (teardown (stopRecognition s))"
    using assms(2) by (rule click_stop_unfold)
  have keep: "pending (stopRecognition s) = pending s" "srcObject (stopRecognition s) = srcObject s"
      "stops (stopRecognition s) = stops s" "\<not> isRecognizing (stopRecognition s)"
    by (simp_all add: stopRecognition_def showMessage_def)
  have t: "pending ?t = pending s" "\<not> isRecognizing ?t" "a \<notin> set (stops ?t)"
    using fresh
    by (auto simp add: stop teardown_keeps teardown_changes keep simp del: step.simps
        split: option.splits)
  have g: "step (Granted a) ?t = granted a ?t" by simp
  show ?thesis
    using t assms(3) by (simp add: g granted_def holds_stream_def del: step.simps)
qed

text \<open>
  C1 fails on the code. The model loads, Start is clicked, Stop is clicked while the
  camera request is pending, and then the request is granted: \<^verbatim>\<open>startWebcam\<close> resumes
  after its \<^verbatim>\<open>await\<close> and attaches the stream without looking at the state. The video
  then shows a live stream whose tracks were never stopped while \<^verbatim>\<open>isRecognizing\<close> is
  false, and no later event of this run stops it.
\<close>

theorem late_stream_is_held:
  "\<not> isRecognizing (run [TfjsLoaded, MobilenetLoaded True, ModelResolved 7, ClickStart,
                          ClickStop, Granted 0] init_app) \<and>
   \<not> recognizing (run [TfjsLoaded, MobilenetLoaded True, ModelResolved 7, ClickStart,
                          ClickStop, Granted 0] init_app) \<and>
   holds_stream (run [TfjsLoaded, MobilenetLoaded True, ModelResolved 7, ClickStart,
                          ClickStop, Granted 0] init_app) \<and>
   srcObject (run [TfjsLoaded, MobilenetLoaded True, ModelResolved 7, ClickStart,
                          ClickStop, Granted 0] init_app) = Some 0 \<and>
   stops (run [TfjsLoaded, MobilenetLoaded True, ModelResolved 7, ClickStart,
                          ClickStop, Granted 0] init_app) = [] \<and>
   pending (run [TfjsLoaded, MobilenetLoaded True, ModelResolved 7, ClickStart,
                          ClickStop, Granted 0] init_app) = []"
  by code_simp

text \<open>
  C2 fails on the code. Recognition runs and a tick has called \<^verbatim>\<open>classify\<close>; Stop is
  clicked while that call is in flight. The cleanup cancels the handle in
  \<^verbatim>\<open>animationFrameRef\<close>, which has already fired. When the call settles, the tick
  requests the next frame, and the next tick passes its guard, because the callback
  reads the \<^verbatim>\<open>isRecognizing\<close> of the render that created it: \<^verbatim>\<open>classify\<close> is called
  again and the result is updated although \<^verbatim>\<open>isRecognizing\<close> is false.
\<close>

theorem tick_after_stop:
  "\<not> isRecognizing (run [TfjsLoaded, MobilenetLoaded True, ModelResolved 7, ClickStart,
        Granted 0, LoadedData, Frame 1, ClickStop] init_app) \<and>
   classify_calls (run [TfjsLoaded, MobilenetLoaded True, ModelResolved 7, ClickStart,
        Granted 0, LoadedData, Frame 1, ClickStop] init_app) = 1 \<and>
   rafs (run [TfjsLoaded, MobilenetLoaded True, ModelResolved 7, ClickStart,
        Granted 0, LoadedData, Frame 1, ClickStop] init_app) = [] \<and>
   rafs (run [TfjsLoaded, MobilenetLoaded True, ModelResolved 7, ClickStart,
        Granted 0, LoadedData, Frame 1, ClickStop,
        Classified (Inr [\<lparr>className = ''cat'', probability = to_double (91 / 100)\<rparr>])] init_app)
     = [(2, \<lparr>seen_model = Some 7, seen_isRecognizing = True\<rparr>)] \<and>
   \<not> isRecognizing (run [TfjsLoaded, MobilenetLoaded True, ModelResolved 7, ClickStart,
        Granted 0, LoadedData, Frame 1, ClickStop,
        Classified (Inr [\<lparr>className = ''cat'', probability = to_double (91 / 100)\<rparr>]),
        Frame 2] init_app) \<and>
   classify_calls (run [TfjsLoaded, MobilenetLoaded True, ModelResolved 7, ClickStart,
        Granted 0, LoadedData, Frame 1, ClickStop,
        Classified (Inr [\<lparr>className = ''cat'', probability = to_double (91 / 100)\<rparr>]),
        Frame 2] init_app) = 2 \<and>
   recognitionResult (run [TfjsLoaded, MobilenetLoaded True, ModelResolved 7, ClickStart,
        Granted 0, LoadedData, Frame 1, ClickStop,
        Classified (Inr [\<lparr>className = ''cat'', probability = to_double (91 / 100)\<rparr>]),
        Frame 2] init_app) = \<lparr>name = Some ''cat'', confidence = Some ''91.00''\<rparr>"
  by code_simp

text \<open>
  A camera request that settles while recognition is still on does end in one of the two
  outcomes: granted, the video shows the live stream and the \<^verbatim>\<open>loadeddata\<close> event
  schedules the first tick; denied, \<^verbatim>\<open>isRecognizing\<close> is reset and the error message
  is shown. In both cases the request is no longer pending.
\<close>

lemma commit_quiet:
  assumes "scriptsLoaded new = scriptsLoaded old"
  shows "message (commit old new) = message new" and "isError (commit old new) = isError new"
  using assms by (simp_all add: commit_def Let_def webcam_effect_keeps teardown_keeps)

lemma commit_not_recognizing:
  assumes "\<not> isRecognizing new"
  shows "requests (commit old new) = requests new" and "pending (commit old new) = pending new"
  using assms
  by (simp_all add: commit_def Let_def webcam_effect_def teardown_keeps model_effect_keeps)

lemma grant_while_recognizing:
  assumes "s = run es init_app" and "isRecognizing s" and "model s \<noteq> None"
    and "map_of (pending s) a = Some c"
  shows "recognizing (step (Granted a) s) \<and>
         a \<notin> fst ` set (pending (step (Granted a) s)) \<and>
         rafs (step LoadedData (step (Granted a) s)) = rafs s @ [(next_raf s, c)]"
proof -
  let ?g = "s\<lparr>pending := filter (\<lambda>(a', c). a' \<noteq> a) (pending s),
      srcObject := Some a, onloadeddata := Some c\<rparr>"
  have inv: "streams_inv s"
    unfolding assms(1) by (rule streams_inv_run) (rule streams_inv_init)
  have "a \<in> fst ` set (pending s)" using assms(4) by (rule map_of_fst)
  then have fresh: "a \<notin> set (stops s)"
    using inv by (auto simp add: streams_inv_def granted_before_def)
  have g: "step (Granted a) s = ?g"
    using assms(4) by (simp add: granted_def)
  have live: "holds_stream ?g"
    using fresh by (simp add: holds_stream_def)
  have rec: "recognizing ?g"
    using assms(2,3) live by (simp add: recognizing_def)
  have gone: "a \<notin> fst ` set (pending ?g)"
    by (simp add: fst_set_filter del: set_filter)
  have "step LoadedData ?g = requestFrame c ?g"
    using live by (simp add: loaded_data_def)
  then have first: "rafs (step LoadedData ?g) = rafs s @ [(next_raf s, c)]"
    by (simp add: requestFrame_def del: step.simps)
  show ?thesis
    unfolding g using rec gone first by blast
qed

lemma denial_is_reported:
  assumes "map_of (pending s) a = Some c"
  shows "\<not> isRecognizing (step (Denied a) s) \<and> isError (step (Denied a) s) \<and>
         message (step (Denied a) s) = webcam_failed_message \<and>
         a \<notin> fst ` set (pending (step (Denied a) s))"
proof -
  let ?n = "(showMessage webcam_failed_message True
      (s\<lparr>pending := filter (\<lambda>(a', c). a' \<noteq> a) (pending s)\<rparr>))\<lparr>isRecognizing := False\<rparr>"
  have d: "step (Denied a) s = commit s ?n"
    using assms by (simp add: denied_def)
  have n: "\<not> isRecognizing ?n" "scriptsLoaded ?n = scriptsLoaded s"
      "pending ?n = filter (\<lambda>(a', c). a' \<noteq> a) (pending s)"
      "message ?n = webcam_failed_message" "isError ?n"
    by (simp_all add: showMessage_def)
  have off: "\<not> isRecognizing (commit s ?n)"
    by (simp only: commit_keeps n) simp
  have msg: "message (commit s ?n) = webcam_failed_message" "isError (commit s ?n)"
    by (simp_all only: commit_quiet [OF n(2)] n)
  have "pending (commit s ?n) = filter (\<lambda>(a', c). a' \<noteq> a) (pending s)"
    by (simp only: commit_not_recognizing [OF n(1)] n)
  then have gone: "a \<notin> fst ` set (pending (commit s ?n))"
    by (simp add: fst_set_filter del: set_filter)
  show ?thesis
    unfolding d using off msg gone by blast
qed

text \<open>
  C8 fails on the code, by the defect of C1. The camera request that is granted after
  Stop was clicked resolves to neither outcome: \<^verbatim>\<open>isRecognizing\<close> stays false, no
  error is shown, and yet the stream is attached and, once the video has data, the
  tick loop starts.
\<close>

theorem late_grant_outcome:
  "pending (run [TfjsLoaded, MobilenetLoaded True, ModelResolved 7, ClickStart, ClickStop]
        init_app) = [(0, \<lparr>seen_model = Some 7, seen_isRecognizing = True\<rparr>)] \<and>
   pending (step (Granted 0) (run [TfjsLoaded, MobilenetLoaded True, ModelResolved 7,
        ClickStart, ClickStop] init_app)) = [] \<and>
   \<not> isRecognizing (step (Granted 0) (run [TfjsLoaded, MobilenetLoaded True, ModelResolved 7,
        ClickStart, ClickStop] init_app)) \<and>
   \<not> isError (step (Granted 0) (run [TfjsLoaded, MobilenetLoaded True, ModelResolved 7,
        ClickStart, ClickStop] init_app)) \<and>
   message (step (Granted 0) (run [TfjsLoaded, MobilenetLoaded True, ModelResolved 7,
        ClickStart, ClickStop] init_app)) = ''Recognition stopped.'' \<and>
   classify_calls (run [LoadedData, Frame 1] (step (Granted 0) (run [TfjsLoaded,
        MobilenetLoaded True, ModelResolved 7, ClickStart, ClickStop] init_app))) = 1"
  by code_simp

end
